theory Spec2Isabelle
  imports Main "HOL-Library.Sublist" "HOL-Library.Code_Target_Nat"
begin

section \<open>Python strings and the Unicode tables they consult\<close>

text \<open>
  A Python \<open>str\<close> is a sequence of Unicode code points, so it is modelled as a list of
  naturals (not as a \<open>string\<close>, whose characters are bytes): \<open>len\<close> is \<open>length\<close> and
  indexing is by code point. The Cyrillic literals of the program appear below as
  code-point lists, with a transliteration beside each.
\<close>

type_synonym ustr = "nat list"

text \<open>
  Two operations of the program consult the Unicode character database of the
  interpreter, which is not part of the repository: the regular-expression class
  \<open>\d\<close> (\<open>Py_UNICODE_ISDECIMAL\<close>, general category Nd) and \<open>str.lower()\<close>. Both are
  parameters of the model, collected in a record; every definition that depends on them
  takes the record as its first argument.
\<close>

record unicode_db =
  isdecimal :: "nat \<Rightarrow> bool"
  lower :: "ustr \<Rightarrow> ustr"

text \<open>
  \<open>str.isspace\<close>, \<open>str.strip()\<close> and the class \<open>\s\<close> all use \<open>Py_UNICODE_ISSPACE\<close>,
  a fixed list of 29 code points.
\<close>

definition py_isspace :: "nat \<Rightarrow> bool" where
  "py_isspace c \<longleftrightarrow>
     (9 \<le> c \<and> c \<le> 13) \<or> (28 \<le> c \<and> c \<le> 32) \<or> c = 133 \<or> c = 160 \<or> c = 5760 \<or>
     (8192 \<le> c \<and> c \<le> 8202) \<or> c = 8232 \<or> c = 8233 \<or> c = 8239 \<or> c = 8287 \<or> c = 12288"

text \<open>
  A concrete database for evaluating the program on texts over ASCII and the basic
  Cyrillic block: below U+0660 the only decimal digits are \<open>0\<close>..\<open>9\<close>, and on
  U+0000..U+007F and U+0400..U+045F lower-casing is character by character
  (\<open>A\<close>..\<open>Z\<close> and U+0410..U+042F move up by 32, U+0400..U+040F by 80).
\<close>

definition lower_basic :: "nat \<Rightarrow> nat" where
  "lower_basic c =
     (if 65 \<le> c \<and> c \<le> 90 then c + 32
      else if 1024 \<le> c \<and> c \<le> 1039 then c + 80
      else if 1040 \<le> c \<and> c \<le> 1071 then c + 32
      else c)"

definition unicode_basic :: unicode_db where
  "unicode_basic = \<lparr> isdecimal = (\<lambda>c. 48 \<le> c \<and> c \<le> 57), lower = map lower_basic \<rparr>"

definition ascii :: "string \<Rightarrow> ustr" where
  "ascii s = map of_char s"

subsection \<open>\<open>str.strip\<close>, \<open>str.split\<close>, \<open>in\<close>, \<open>str.startswith\<close>, \<open>str.replace\<close>\<close>

definition strip :: "ustr \<Rightarrow> ustr" where
  "strip s = rev (dropWhile py_isspace (rev (dropWhile py_isspace s)))"

text \<open>
  \<open>s.split(sep)\<close> scans from the left for non-overlapping occurrences of a non-empty
  separator (an empty one raises ValueError; the program has none). \<open>split_from sep acc s\<close>
  is the scan, with \<open>acc\<close> the current piece, reversed.
\<close>

function split_from :: "ustr \<Rightarrow> ustr \<Rightarrow> ustr \<Rightarrow> ustr list" where
  "split_from sep acc [] = [rev acc]"
| "split_from sep acc (c # cs) =
     (if sep \<noteq> [] \<and> take (length sep) (c # cs) = sep
      then rev acc # split_from sep [] (drop (length sep - 1) cs)
      else split_from sep (c # acc) cs)"
  by pat_completeness auto
termination
  by (relation "measure (\<lambda>(sep, acc, s). length s)") auto

definition split :: "ustr \<Rightarrow> ustr \<Rightarrow> ustr list" where
  "split s sep = split_from sep [] s"

definition contains :: "ustr \<Rightarrow> ustr \<Rightarrow> bool" where
  \<comment> \<open>\<open>w in s\<close>\<close>
  "contains w s = list_ex (\<lambda>i. take (length w) (drop i s) = w) [0..<Suc (length s)]"

definition startswith :: "ustr \<Rightarrow> ustr list \<Rightarrow> bool" where
  \<comment> \<open>\<open>s.startswith((p1, ..., pn))\<close>\<close>
  "startswith s ps = list_ex (\<lambda>p. take (length p) s = p) ps"

definition replace :: "ustr \<Rightarrow> ustr \<Rightarrow> ustr \<Rightarrow> ustr" where
  \<comment> \<open>\<open>s.replace(old, new)\<close> for a non-empty \<open>old\<close>: the pieces between the occurrences, joined by \<open>new\<close>\<close>
  "replace s old new =
     (case split s old of [] \<Rightarrow> [] | p # ps \<Rightarrow> p @ concat (map (\<lambda>q. new @ q) ps))"

section \<open>The regular expressions of the program\<close>

text \<open>
  The patterns of the source use literals, the classes \<open>\d\<close>, \<open>\D\<close>, \<open>\s\<close>, bracketed
  sets, the anchors \<open>^\<close> and \<open>$\<close> (no MULTILINE flag), grouping, alternation and counted
  repetition (\<open>?\<close> is \<open>{0,1}\<close>, \<open>+\<close> is \<open>{1,}\<close>). The source only asks whether
  \<open>re.search\<close> finds a match, so the matcher computes, for a start position, every
  position at which a match of the pattern can end.
\<close>

datatype cclass = Digit | Space | Lit nat

datatype regex =
    Str ustr
  | In "cclass list"
  | NotIn "cclass list"
  | Bol
  | Eol
  | Seq regex regex
  | Alt regex regex
  | Rep nat "nat option" regex

fun in_class :: "unicode_db \<Rightarrow> nat \<Rightarrow> cclass \<Rightarrow> bool" where
  "in_class U c Digit = isdecimal U c"
| "in_class U c Space = py_isspace c"
| "in_class U c (Lit x) = (c = x)"

fun iterate :: "(nat \<Rightarrow> nat list) \<Rightarrow> nat \<Rightarrow> nat list \<Rightarrow> nat list" where
  "iterate f 0 ps = ps"
| "iterate f (Suc k) ps = iterate f k (concat (map f ps))"

text \<open>
  \<open>$\<close> matches at the end of the string and just before a newline that ends it.
  An unbounded repetition is tried up to \<open>m + len(s)\<close> times: every further round
  would have to match the empty string.
\<close>

fun ends :: "unicode_db \<Rightarrow> ustr \<Rightarrow> regex \<Rightarrow> nat \<Rightarrow> nat list" where
  "ends U s (Str w) i = (if take (length w) (drop i s) = w then [i + length w] else [])"
| "ends U s (In cs) i = (if i < length s \<and> list_ex (in_class U (s ! i)) cs then [Suc i] else [])"
| "ends U s (NotIn cs) i = (if i < length s \<and> \<not> list_ex (in_class U (s ! i)) cs then [Suc i] else [])"
| "ends U s Bol i = (if i = 0 then [i] else [])"
| "ends U s Eol i = (if i = length s \<or> (Suc i = length s \<and> s ! i = 10) then [i] else [])"
| "ends U s (Seq a b) i = concat (map (\<lambda>j. ends U s b j) (ends U s a i))"
| "ends U s (Alt a b) i = ends U s a i @ ends U s b i"
| "ends U s (Rep m n r) i =
     concat (map (\<lambda>k. iterate (\<lambda>j. ends U s r j) k [i])
       (case n of Some n' \<Rightarrow> [m..<Suc n'] | None \<Rightarrow> [m..<Suc (m + length s)]))"

definition re_search :: "unicode_db \<Rightarrow> regex \<Rightarrow> ustr \<Rightarrow> bool" where
  \<comment> \<open>\<open>bool(re.search(pattern, s))\<close>\<close>
  "re_search U pattern s = list_ex (\<lambda>i. ends U s pattern i \<noteq> []) [0..<Suc (length s)]"

definition re_sub_empty :: "unicode_db \<Rightarrow> regex \<Rightarrow> ustr \<Rightarrow> ustr" where
  \<comment> \<open>\<open>re.sub(pattern, '', s)\<close> for a pattern that is one character set (\<open>\D\<close>, \<open>[^\d+]\<close>):
      every character the set matches is a match of its own and is removed\<close>
  "re_sub_empty U pattern s = filter (\<lambda>c. ends U [c] pattern 0 = []) s"

section \<open>The price table and the classifier\<close>

definition mk :: ustr where \<comment> \<open>"mk", lower case (U+043C U+043A)\<close>
  "mk = [1084, 1082]"

definition mk_dop :: ustr where \<comment> \<open>"mk dop " (with the trailing space)\<close>
  "mk_dop = [1084, 1082, 32, 1076, 1086, 1087, 32]"

text \<open>
  \<open>PRICE_MAP\<close>, a dict literal: its items in insertion order. The colour names are
  sinyaya, krasnaya, oranzhevaya, salatovaya, korichnevaya, svetlo-seraya, rozovaya,
  temno-seraya, golubaya.
\<close>

definition plus_re :: regex where \<comment> \<open>\<open>\+|^-\<close>\<close>
  "plus_re = Alt (Str [43]) (Seq Bol (Str [45]))"

definition mk_re :: regex where \<comment> \<open>\<open>mk(\.|$|\s)|MK|Mk|mk\<close>, the letters Cyrillic\<close>
  "mk_re =
     Alt (Seq (Str mk) (Alt (Str [46]) (Alt Eol (In [Space]))))
       (Alt (Str [1052, 1050]) (Alt (Str [1052, 1082]) (Str mk)))"

definition PRICE_MAP :: "(regex \<times> int) list" where
  "PRICE_MAP =
   [ (plus_re, 10),
     (mk_re, 15),
     (Str (mk_dop @ [1089, 1080, 1085, 1103, 1103]), 23),
     (Str (mk_dop @ [1082, 1088, 1072, 1089, 1085, 1072, 1103]), 31),
     (Str (mk_dop @ [1086, 1088, 1072, 1085, 1078, 1077, 1074, 1072, 1103]), 40),
     (Str (mk_dop @ [1089, 1072, 1083, 1072, 1090, 1086, 1074, 1072, 1103]), 48),
     (Str (mk_dop @ [1082, 1086, 1088, 1080, 1095, 1085, 1077, 1074, 1072, 1103]), 57),
     (Str (mk_dop @ [1089, 1074, 1077, 1090, 1083, 1086, 45, 1089, 1077, 1088, 1072, 1103]), 65),
     (Str (mk_dop @ [1088, 1086, 1079, 1086, 1074, 1072, 1103]), 74),
     (Str (mk_dop @ [1090, 1077, 1084, 1085, 1086, 45, 1089, 1077, 1088, 1072, 1103]), 82),
     (Str (mk_dop @ [1075, 1086, 1083, 1091, 1073, 1072, 1103]), 91) ]"

fun first_match :: "unicode_db \<Rightarrow> (regex \<times> int) list \<Rightarrow> ustr \<Rightarrow> int" where
  "first_match U [] text = 0"
| "first_match U ((pattern, amount) # rest) text =
     (if re_search U pattern text then amount else first_match U rest text)"

definition extract_amount :: "unicode_db \<Rightarrow> ustr \<Rightarrow> int" where
  "extract_amount U text =
     (let text = lower U text
      in first_match U (sort_key (\<lambda>x. - snd x) PRICE_MAP) text)"

section \<open>The income ledger\<close>

text \<open>
  \<open>user_income_storage\<close> is a \<open>defaultdict\<close> of \<open>defaultdict(int)\<close>: user id to date to
  total. Reading \<open>user_income_storage[user_id]\<close> creates the user's inner dictionary
  when it is missing; \<open>+=\<close> on a missing date starts from \<open>int()\<close>, which is 0.
  \<open>datetime.now().date()\<close> is the argument \<open>today\<close>, a day number.
\<close>

type_synonym date = nat
type_synonym ledger = "int \<rightharpoonup> (date \<rightharpoonup> int)"

definition user_dict :: "ledger \<Rightarrow> int \<Rightarrow> (date \<rightharpoonup> int)" where
  "user_dict storage user_id = (case storage user_id of None \<Rightarrow> Map.empty | Some d \<Rightarrow> d)"

definition add_income :: "date \<Rightarrow> int \<Rightarrow> int \<Rightarrow> ledger \<Rightarrow> int \<times> ledger" where
  "add_income today user_id amount storage =
     (let d = user_dict storage user_id;
          total = (case d today of None \<Rightarrow> 0 | Some v \<Rightarrow> v) + amount
      in (total, storage(user_id \<mapsto> d(today \<mapsto> total))))"

definition get_income_today :: "date \<Rightarrow> int \<Rightarrow> ledger \<Rightarrow> int \<times> ledger" where
  "get_income_today today user_id storage =
     (let d = user_dict storage user_id
      in (case d today of None \<Rightarrow> 0 | Some v \<Rightarrow> v, storage(user_id \<mapsto> d)))"

text \<open>A sequence of \<open>add_income\<close> calls, each with the date the clock shows at the call.\<close>

fun add_incomes :: "(date \<times> int \<times> int) list \<Rightarrow> ledger \<Rightarrow> ledger" where
  "add_incomes [] storage = storage"
| "add_incomes ((today, user_id, amount) # calls) storage =
     add_incomes calls (snd (add_income today user_id amount storage))"

section \<open>The phone validator\<close>

definition is_valid_phone :: "unicode_db \<Rightarrow> ustr \<Rightarrow> bool" where
  "is_valid_phone U phone =
     (let phone = re_sub_empty U (NotIn [Digit]) phone
      in startswith phone [ascii ''375'', ascii ''8029'', ascii ''8044'', ascii ''8033'', ascii ''8025'']
         \<and> length phone \<ge> 9)"

section \<open>The field extractor\<close>

record fields =
  interval :: ustr
  address :: ustr
  phone :: ustr
  comment :: ustr

definition time_re :: regex where \<comment> \<open>\<open>\d{1,2}:\d{2}\<close>\<close>
  "time_re = Seq (Rep 1 (Some 2) (In [Digit])) (Seq (Str [58]) (Rep 2 (Some 2) (In [Digit])))"

definition phone_re :: regex where \<comment> \<open>\<open>\+?\d{7,}\<close>\<close>
  "phone_re = Seq (Rep 0 (Some 1) (Str [43])) (Rep 7 None (In [Digit]))"

definition blizhayshee :: ustr where \<comment> \<open>"blizhayshee" (nearest)\<close>
  "blizhayshee = [1073, 1083, 1080, 1078, 1072, 1081, 1096, 1077, 1077]"

definition kak_mozhno_skoree :: ustr where \<comment> \<open>"kak mozhno skoree" (as soon as possible)\<close>
  "kak_mozhno_skoree =
     [1082, 1072, 1082, 32, 1084, 1086, 1078, 1085, 1086, 32, 1089, 1082, 1086, 1088, 1077, 1077]"

definition comment_marker :: ustr where \<comment> \<open>"Kommentariy zakazchika:" (customer's comment)\<close>
  "comment_marker =
     [1050, 1086, 1084, 1084, 1077, 1085, 1090, 1072, 1088, 1080, 1081, 32,
      1079, 1072, 1082, 1072, 1079, 1095, 1080, 1082, 1072, 58]"

text \<open>One round of the loop over the lines: the \<open>if\<close>/\<open>elif\<close> chain, in the source's order.\<close>

definition extract_line :: "unicode_db \<Rightarrow> ustr \<Rightarrow> fields \<Rightarrow> fields" where
  "extract_line U line fs =
     (if re_search U time_re line \<or> contains blizhayshee (lower U line)
           \<or> contains kak_mozhno_skoree (lower U line)
      then fs\<lparr>interval := strip line\<rparr>
      else if contains comment_marker line
      then fs\<lparr>comment := strip (last (split line comment_marker))\<rparr>
      else if re_search U phone_re line
      then fs\<lparr>phone := re_sub_empty U (NotIn [Digit, Lit 43]) (strip line)\<rparr>
      else fs\<lparr>address := strip line\<rparr>)"

definition extract_fields :: "unicode_db \<Rightarrow> ustr \<Rightarrow> fields" where
  "extract_fields U text =
     (let lines = split (strip text) [10]
      in fold (extract_line U) lines \<lparr>interval = [], address = [], phone = [], comment = []\<rparr>)"

section \<open>The order checks\<close>

text \<open>
  The checks of \<open>handle_message\<close> on the extracted fields, with their three exits, as a
  function of the fields. The labels stand for the Russian phrases appended to
  \<open>missing\<close> ("adres s nomerom doma", "vremennoy interval", "nomer telefona").
\<close>

datatype field_label = AddressWithHouseNumber | TimeInterval | PhoneNumber

datatype outcome =
    Accepted ustr
  | RejectedMissingFields "field_label list"
  | RejectedInvalidPhone

definition format_order :: "fields \<Rightarrow> ustr" where
  \<comment> \<open>the four lines of the accepted order; an empty comment is shown as U+2014\<close>
  "format_order data =
     interval data @ [10] @ address data @ [10] @ phone data @ [10] @ comment_marker @ [32]
       @ (if comment data \<noteq> [] then comment data else [8212])"

definition digits_re :: regex where \<comment> \<open>\<open>\d+\<close>\<close>
  "digits_re = Rep 1 None (In [Digit])"

definition validate :: "unicode_db \<Rightarrow> fields \<Rightarrow> outcome" where
  "validate U data =
     (let missing = [];
          missing = (if address data = [] \<or> \<not> re_search U digits_re (address data)
                     then missing @ [AddressWithHouseNumber] else missing);
          missing = (if interval data = [] then missing @ [TimeInterval] else missing)
      in if phone data \<noteq> [] \<and> \<not> is_valid_phone U (phone data)
         then RejectedInvalidPhone \<comment> \<open>the \<open>elif\<close> replies and returns\<close>
         else
           (let missing = (if phone data = [] then missing @ [PhoneNumber] else missing)
            in if missing \<noteq> [] then RejectedMissingFields missing
               else Accepted (format_order data)))"

section \<open>The dispatcher\<close>

definition ALLOWED_CONTEXTS :: "(int \<times> int list) list" where
  "ALLOWED_CONTEXTS =
   [ (- 1002079167705, [7340]),
     (- 1002387655137, [9]),
     (- 1002423500927, [4]),
     (- 1002178818697, [4]) ]"

definition trigger_re :: regex where \<comment> \<open>\<open>(^|\s)[\+\-]\<close>\<close>
  "trigger_re = Seq (Alt Bol (In [Space])) (In [Lit 43, Lit 45])"

definition PROMPT_TEMPLATE :: ustr where
  "PROMPT_TEMPLATE =
     [10, 1058, 1099, 32, 1087, 1086, 1084, 1086, 1097, 1085, 1080, 1082, 32, 1089, 1083,
      1091, 1078, 1073, 1099, 32, 1076, 1086, 1089, 1090, 1072, 1074, 1082, 1080, 46, 32,
      1048, 1079, 32, 1090, 1077, 1082, 1089, 1090, 1072, 32, 1079, 1072, 1103, 1074, 1082,
      1080, 32, 1080, 1079, 1074, 1083, 1077, 1082, 1080, 58, 10, 10, 49, 46, 32, 1042,
      1088, 1077, 1084, 1077, 1085, 1085, 1086, 1081, 32, 1080, 1085, 1090, 1077, 1088,
      1074, 1072, 1083, 32, 1076, 1086, 1089, 1090, 1072, 1074, 1082, 1080, 32, 40, 1080,
      1083, 1080, 32, 1092, 1088, 1072, 1079, 1091, 58, 32, 34, 1074, 32, 1073, 1083, 1080,
      1078, 1072, 1081, 1096, 1077, 1077, 32, 1074, 1088, 1077, 1084, 1103, 34, 44, 32, 34,
      1082, 1072, 1082, 32, 1084, 1086, 1078, 1085, 1086, 32, 1089, 1082, 1086, 1088, 1077,
      1077, 34, 41, 10, 50, 46, 32, 1040, 1076, 1088, 1077, 1089, 32, 1089, 32, 1085, 1086,
      1084, 1077, 1088, 1086, 1084, 32, 1076, 1086, 1084, 1072, 10, 51, 46, 32, 1053, 1086,
      1084, 1077, 1088, 32, 1090, 1077, 1083, 1077, 1092, 1086, 1085, 1072, 10, 52, 46, 32,
      1050, 1086, 1084, 1084, 1077, 1085, 1090, 1072, 1088, 1080, 1081, 32, 1079, 1072,
      1082, 1072, 1079, 1095, 1080, 1082, 1072, 32, 40, 1077, 1089, 1083, 1080, 32, 1077,
      1089, 1090, 1100, 41, 10, 10, 1060, 1086, 1088, 1084, 1072, 1090, 32, 1086, 1090,
      1074, 1077, 1090, 1072, 58, 10, 91, 1074, 1088, 1077, 1084, 1077, 1085, 1085, 1086,
      1081, 32, 1080, 1085, 1090, 1077, 1088, 1074, 1072, 1083, 93, 10, 91, 1072, 1076,
      1088, 1077, 1089, 93, 10, 91, 1085, 1086, 1084, 1077, 1088, 32, 1090, 1077, 1083,
      1077, 1092, 1086, 1085, 1072, 93, 10, 1050, 1086, 1084, 1084, 1077, 1085, 1090, 1072,
      1088, 1080, 1081, 32, 1079, 1072, 1082, 1072, 1079, 1095, 1080, 1082, 1072, 58, 32,
      91, 1077, 1089, 1083, 1080, 32, 1077, 1089, 1090, 1100, 93, 10, 10, 1042, 1086, 1090,
      32, 1079, 1072, 1103, 1074, 1082, 1072, 58, 10, 123, 116, 101, 120, 116, 125, 10]"

text \<open>
  An inbound message, and the collaborators of one call of the handler: the clock, the
  chat transport (whether \<open>context.bot.send_message\<close> and \<open>message.reply_text\<close> raise)
  and the completion provider (\<open>None\<close> when the call, or reading
  \<open>response.choices[0].message.content\<close>, raises).
\<close>

record message =
  chat_id :: int
  message_thread_id :: "int option"
  from_user_id :: int
  message_text :: ustr

record world =
  today :: date
  send_message_raises :: bool
  reply_text_raises :: bool
  completion :: "ustr \<Rightarrow> ustr option"

text \<open>
  What the handler does to the outside, in order. \<open>SendMessage user amount total\<close> is
  the direct message with the amount and the day's total; the fixed wording of the four
  replies is not spelled out. An effect is recorded when the call is made, whether or
  not the call then raises.
\<close>

datatype reply = InvalidPhone | MissingData "field_label list" | OrderAccepted ustr | ProcessingError

datatype effect =
    SendMessage int int int
  | CreateCompletion ustr
  | LogError
  | ReplyText reply

datatype status = Returned | Raised

definition order_path ::
  "unicode_db \<Rightarrow> world \<Rightarrow> ustr \<Rightarrow> ledger \<Rightarrow> effect list \<times> ledger \<times> status" where
  "order_path U w user_text storage =
     (let prompt = replace PROMPT_TEMPLATE (ascii ''{text}'') user_text
      in case completion w prompt of
           None \<Rightarrow>
             ([CreateCompletion prompt, LogError, ReplyText ProcessingError], storage,
              if reply_text_raises w then Raised else Returned)
         | Some content \<Rightarrow>
             (let parsed = strip content;
                  data = extract_fields U parsed;
                  r = (case validate U data of
                         RejectedInvalidPhone \<Rightarrow> InvalidPhone
                       | RejectedMissingFields missing \<Rightarrow> MissingData missing
                       | Accepted formatted \<Rightarrow> OrderAccepted formatted)
              in if reply_text_raises w
                 then ([CreateCompletion prompt, ReplyText r, LogError, ReplyText ProcessingError],
                       storage, Raised)
                 else ([CreateCompletion prompt, ReplyText r], storage, Returned)))"

definition income_path :: "world \<Rightarrow> message \<Rightarrow> int \<Rightarrow> ledger \<Rightarrow> effect list \<times> ledger \<times> status" where
  "income_path w message amount storage =
     (let user_id = from_user_id message;
          (total_today, storage') = add_income (today w) user_id amount storage
      in ([SendMessage user_id amount total_today], storage',
          if send_message_raises w then Returned \<comment> \<open>\<open>except: pass\<close>\<close>
          else Returned))"

definition handle_message ::
  "unicode_db \<Rightarrow> world \<Rightarrow> message \<Rightarrow> ledger \<Rightarrow> effect list \<times> ledger \<times> status" where
  "handle_message U w message storage =
     (let thread_id = (case message_thread_id message of None \<Rightarrow> 0 | Some t \<Rightarrow> t)
      in case map_of ALLOWED_CONTEXTS (chat_id message) of
           None \<Rightarrow> ([], storage, Returned)
         | Some threads \<Rightarrow>
             if thread_id \<notin> set threads then ([], storage, Returned)
             else
               (let user_text = message_text message
                in if re_search U trigger_re user_text
                   then
                     (let amount = extract_amount U user_text
                      in if amount \<noteq> 0 then income_path w message amount storage
                         else order_path U w user_text storage)
                   else order_path U w user_text storage))"

definition handle_dohod :: "world \<Rightarrow> int \<Rightarrow> ledger \<Rightarrow> int \<times> ledger" where
  \<comment> \<open>the income command: the total that the reply reports\<close>
  "handle_dohod w user_id storage = get_income_today (today w) user_id storage"

section \<open>Notions of the specification, and sample data\<close>

text \<open>The AllowedContext set of the specification: the permitted (chat, thread) pairs.\<close>

definition allowed_pairs :: "(int \<times> int) list" where
  "allowed_pairs = concat (map (\<lambda>(c, ts). map (Pair c) ts) ALLOWED_CONTEXTS)"

definition thread_or_0 :: "message \<Rightarrow> int" where
  "thread_or_0 m = (case message_thread_id m of None \<Rightarrow> 0 | Some t \<Rightarrow> t)"

text \<open>
  The well-formed order of the specification's examples: "s 14:00 do 16:00",
  "ul. Lenina 5", "+375291234567" and the comment "pozvonit' za 10 minut".
\<close>

definition sample_order :: fields where
  "sample_order =
     \<lparr> interval = [1089, 32, 49, 52, 58, 48, 48, 32, 1076, 1086, 32, 49, 54, 58, 48, 48],
       address = [1091, 1083, 46, 32, 1051, 1077, 1085, 1080, 1085, 1072, 32, 53],
       phone = ascii ''+375291234567'',
       comment = [1087, 1086, 1079, 1074, 1086, 1085, 1080, 1090, 1100, 32, 1079, 1072, 32,
                  49, 48, 32, 1084, 1080, 1085, 1091, 1090] \<rparr>"

text \<open>
  The field extractor in the words of the specification. A line has the shape of a time
  when somewhere in it a decimal digit is followed by a colon and two decimal digits; it
  has a digit run of length \<open>n\<close> when \<open>n\<close> consecutive characters of it are decimal
  digits. Every line has one kind, decided in the order interval, comment, phone,
  address; a kind gives the line's value for the field of that kind; a field is the
  value of the last line of its kind, and the empty string when there is none.
\<close>

definition time_shape_at :: "unicode_db \<Rightarrow> ustr \<Rightarrow> nat \<Rightarrow> bool" where
  "time_shape_at U s i \<longleftrightarrow>
     i + 3 < length s \<and> isdecimal U (s ! i) \<and> s ! (i + 1) = 58 \<and>
     isdecimal U (s ! (i + 2)) \<and> isdecimal U (s ! (i + 3))"

definition has_time_shape :: "unicode_db \<Rightarrow> ustr \<Rightarrow> bool" where
  "has_time_shape U s = list_ex (time_shape_at U s) [0..<length s]"

definition digit_run_at :: "unicode_db \<Rightarrow> nat \<Rightarrow> ustr \<Rightarrow> nat \<Rightarrow> bool" where
  "digit_run_at U n s i \<longleftrightarrow>
     length (take n (drop i s)) = n \<and> list_all (isdecimal U) (take n (drop i s))"

definition has_digit_run :: "unicode_db \<Rightarrow> nat \<Rightarrow> ustr \<Rightarrow> bool" where
  "has_digit_run U n s = list_ex (digit_run_at U n s) [0..<Suc (length s)]"

datatype line_kind = IntervalLine | CommentLine | PhoneLine | AddressLine

definition line_kind :: "unicode_db \<Rightarrow> ustr \<Rightarrow> line_kind" where
  "line_kind U line =
     (if has_time_shape U line \<or> contains blizhayshee (lower U line)
           \<or> contains kak_mozhno_skoree (lower U line)
      then IntervalLine
      else if contains comment_marker line then CommentLine
      else if has_digit_run U 7 line then PhoneLine
      else AddressLine)"

definition line_value :: "unicode_db \<Rightarrow> line_kind \<Rightarrow> ustr \<Rightarrow> ustr" where
  "line_value U k line =
     (case k of
        IntervalLine \<Rightarrow> strip line
      | CommentLine \<Rightarrow> strip (last (split line comment_marker))
      | PhoneLine \<Rightarrow> filter (\<lambda>c. isdecimal U c \<or> c = 43) (strip line)
      | AddressLine \<Rightarrow> strip line)"

definition latest :: "unicode_db \<Rightarrow> line_kind \<Rightarrow> ustr list \<Rightarrow> ustr \<Rightarrow> ustr" where
  "latest U k lines v =
     (case find (\<lambda>l. line_kind U l = k) (rev lines) of None \<Rightarrow> v | Some l \<Rightarrow> line_value U k l)"

definition field_of :: "unicode_db \<Rightarrow> line_kind \<Rightarrow> ustr list \<Rightarrow> ustr" where
  "field_of U k lines = latest U k lines []"

definition sample_comment_line :: ustr where
  "sample_comment_line = comment_marker @ [32] @ comment sample_order"

definition sample_completion :: ustr where
  \<comment> \<open>the four lines of the sample order, joined by newlines\<close>
  "sample_completion =
     interval sample_order @ [10] @ address sample_order @ [10] @ phone sample_order @ [10]
       @ sample_comment_line"

definition mk_dop_sinyaya :: ustr where \<comment> \<open>"mk dop sinyaya"\<close>
  "mk_dop_sinyaya = [1084, 1082, 32, 1076, 1086, 1087, 32, 1089, 1080, 1085, 1103, 1103]"

definition empty_storage :: ledger where
  "empty_storage = Map.empty"

definition provider_down :: "ustr \<Rightarrow> ustr option" where
  "provider_down prompt = None"

definition sample_world :: world where
  "sample_world =
     \<lparr> today = 739194, send_message_raises = True, reply_text_raises = False,
       completion = provider_down \<rparr>"

definition sample_message :: "ustr \<Rightarrow> message" where
  \<comment> \<open>a message of user 5 in the second allowed context\<close>
  "sample_message t =
     \<lparr> chat_id = - 1002387655137, message_thread_id = Some 9, from_user_id = 5, message_text = t \<rparr>"

section \<open>Facts about the matcher\<close>

lemma iterate_Nil: "iterate f k [] = []"
  by (induction k) simp_all

lemma search_iff: "re_search U r s \<longleftrightarrow> (\<exists>i\<le>length s. ends U s r i \<noteq> [])"
  unfolding re_search_def list_ex_iff set_upt by (auto simp: less_Suc_eq_le)

lemma ends_Rep_unbounded:
  "ends U s (Rep m None r) i \<noteq> [] \<longleftrightarrow>
     (\<exists>k. m \<le> k \<and> k \<le> m + length s \<and> iterate (ends U s r) k [i] \<noteq> [])"
  by (simp del: upt_Suc) (metis atLeastLessThan_iff less_Suc_eq_le)

lemma ends_Rep_bounded:
  "ends U s (Rep m (Some n) r) i \<noteq> [] \<longleftrightarrow>
     (\<exists>k. m \<le> k \<and> k \<le> n \<and> iterate (ends U s r) k [i] \<noteq> [])"
  by (simp del: upt_Suc) (metis atLeastLessThan_iff less_Suc_eq_le)

lemma ends_digits_re:
  "ends U s digits_re i \<noteq> [] \<longleftrightarrow> i < length s \<and> isdecimal U (s ! i)"
proof
  assume "ends U s digits_re i \<noteq> []"
  then obtain k where k: "1 \<le> k" "iterate (ends U s (In [Digit])) k [i] \<noteq> []"
    unfolding digits_re_def ends_Rep_unbounded by blast
  then obtain k' where "k = Suc k'" by (cases k) auto
  with k(2) have "ends U s (In [Digit]) i \<noteq> []"
    by (auto simp: iterate_Nil split: if_splits)
  then show "i < length s \<and> isdecimal U (s ! i)" by (simp split: if_splits)
next
  assume a: "i < length s \<and> isdecimal U (s ! i)"
  have "iterate (ends U s (In [Digit])) 1 [i] \<noteq> []" using a by simp
  then show "ends U s digits_re i \<noteq> []"
    unfolding digits_re_def ends_Rep_unbounded by (metis le_add1 order_refl)
qed

lemma search_digits_re: "re_search U digits_re s \<longleftrightarrow> (\<exists>c\<in>set s. isdecimal U c)"
  unfolding search_iff ends_digits_re
  by (metis in_set_conv_nth less_imp_le_nat)

lemma sub_non_digits: "re_sub_empty U (NotIn [Digit]) s = filter (isdecimal U) s"
  by (simp add: re_sub_empty_def cong: filter_cong)

lemma sub_non_digits_plus:
  "re_sub_empty U (NotIn [Digit, Lit 43]) s = filter (\<lambda>c. isdecimal U c \<or> c = 43) s"
  by (simp add: re_sub_empty_def cong: filter_cong)

lemma take_eq_prefix: "take (length p) s = p \<longleftrightarrow> prefix p s"
  by (metis append_eq_conv_conj prefix_def)

lemma basic_digits: "\<forall>c<128. isdecimal unicode_basic c \<longleftrightarrow> 48 \<le> c \<and> c \<le> 57"
  by (simp add: unicode_basic_def)

section \<open>The income ledger\<close>

lemma total_after_add_income:
  "fst (get_income_today d u (snd (add_income d' u' a st))) =
     fst (get_income_today d u st) + (if d' = d \<and> u' = u then a else 0)"
  by (simp add: get_income_today_def add_income_def user_dict_def Let_def split: option.splits)

lemma total_after_add_incomes:
  "fst (get_income_today d u (add_incomes calls st)) =
     fst (get_income_today d u st) + sum_list [a. (d', u', a) \<leftarrow> calls, d' = d \<and> u' = u]"
proof (induction calls arbitrary: st)
  case Nil
  show ?case by simp
next
  case (Cons call calls)
  obtain d' u' a where call: "call = (d', u', a)" by (cases call)
  show ?case
    unfolding call by (simp add: Cons.IH total_after_add_income)
qed

text \<open>
  C8. \<open>add_income\<close> returns the previous total of the user's bucket for the day plus the
  amount, and that is what \<open>get_income_today\<close> then reads. After any sequence of
  \<open>add_income\<close> calls, on any days and for any users, \<open>get_income_today\<close> for a user and a
  day is what it was before plus the sum of the amounts credited to that user on that
  day: calls for another day or another user do not count. Starting from the empty
  ledger it is exactly that sum, and 0 when nothing was recorded.
\<close>

theorem ledger_running_sum:
  "fst (add_income d u a st) = fst (get_income_today d u st) + a \<and>
   fst (get_income_today d u (snd (add_income d u a st))) = fst (add_income d u a st) \<and>
   fst (get_income_today d u (add_incomes calls st)) =
     fst (get_income_today d u st) + sum_list [a. (d', u', a) \<leftarrow> calls, d' = d \<and> u' = u] \<and>
   fst (get_income_today d u (add_incomes calls empty_storage)) =
     sum_list [a. (d', u', a) \<leftarrow> calls, d' = d \<and> u' = u] \<and>
   fst (get_income_today d u empty_storage) = 0"
proof -
  have 1: "fst (add_income d u a st) = fst (get_income_today d u st) + a"
    by (simp add: get_income_today_def add_income_def Let_def)
  have 2: "fst (get_income_today d u (snd (add_income d u a st))) = fst (add_income d u a st)"
    by (simp add: total_after_add_income 1)
  have 3: "fst (get_income_today d u empty_storage) = 0"
    by (simp add: get_income_today_def user_dict_def empty_storage_def)
  show ?thesis using 1 2 3 total_after_add_incomes by simp
qed

theorem ledger_running_sum_witness:
  "fst (get_income_today 7 5 (add_incomes [(7, 5, 10), (6, 5, 15), (7, 4, 23), (7, 5, 15)] empty_storage)) = 25
   \<and> fst (get_income_today 8 5 (add_incomes [(7, 5, 10), (6, 5, 15), (7, 4, 23), (7, 5, 15)] empty_storage)) = 0"
  using ledger_running_sum [of 7 5 0 empty_storage "[(7, 5, 10), (6, 5, 15), (7, 4, 23), (7, 5, 15)]"]
    ledger_running_sum [of 8 5 0 empty_storage "[(7, 5, 10), (6, 5, 15), (7, 4, 23), (7, 5, 15)]"]
  by simp

section \<open>The access filter\<close>

text \<open>
  C9. A message whose (chat id, thread id) pair, the thread id read as 0 when the
  platform reports none, is not among the allowed pairs is dropped at once: the handler
  returns with no effect at all (no direct message, no completion call, no log entry,
  no reply) and the ledger as it was, whatever the text, the clock, the transport and
  the provider are.
\<close>

theorem access_filter_silent:
  "(chat_id m, thread_or_0 m) \<notin> set allowed_pairs \<Longrightarrow>
     handle_message U w m st = ([], st, Returned)"
  by (simp add: handle_message_def allowed_pairs_def thread_or_0_def ALLOWED_CONTEXTS_def Let_def
      split: option.splits)

theorem access_filter_silent_witness:
  "(chat_id (sample_message (ascii ''+15'') \<lparr>message_thread_id := None\<rparr>),
    thread_or_0 (sample_message (ascii ''+15'') \<lparr>message_thread_id := None\<rparr>)) \<notin> set allowed_pairs
   \<and> handle_message unicode_basic sample_world
        (sample_message (ascii ''+15'') \<lparr>message_thread_id := None\<rparr>) empty_storage
      = ([], empty_storage, Returned)"
proof -
  have h: "(chat_id (sample_message (ascii ''+15'') \<lparr>message_thread_id := None\<rparr>),
    thread_or_0 (sample_message (ascii ''+15'') \<lparr>message_thread_id := None\<rparr>)) \<notin> set allowed_pairs"
    by (simp add: sample_message_def thread_or_0_def allowed_pairs_def ALLOWED_CONTEXTS_def)
  from access_filter_silent [OF h] h show ?thesis by simp
qed

section \<open>The phone validator\<close>

lemma is_valid_phone_digits:
  "is_valid_phone U p \<longleftrightarrow>
      (let digits = filter (isdecimal U) p
       in (prefix (ascii ''375'') digits \<or> prefix (ascii ''8029'') digits \<or>
           prefix (ascii ''8044'') digits \<or> prefix (ascii ''8033'') digits \<or>
           prefix (ascii ''8025'') digits) \<and> length digits \<ge> 9)"
  by (simp add: is_valid_phone_def sub_non_digits startswith_def take_eq_prefix Let_def)

lemma phone_examples:
  assumes "\<forall>c<128. isdecimal U c \<longleftrightarrow> 48 \<le> c \<and> c \<le> 57"
  shows "is_valid_phone U (ascii ''+375291234567'') \<and> is_valid_phone U (ascii ''80291234567'') \<and>
         \<not> is_valid_phone U (ascii ''+79991234567'') \<and> \<not> is_valid_phone U (ascii ''12345'')"
  using assms by (simp add: is_valid_phone_digits ascii_def)

text \<open>
  C5. \<open>is_valid_phone\<close> keeps the characters that \<open>\d\<close> matches, in order, and holds
  exactly when what is left starts with one of 375, 8029, 8044, 8033, 8025 and has at
  least 9 characters. With \<open>0\<close>..\<open>9\<close> the only decimal digits among the ASCII
  characters, "+375291234567" and "80291234567" are valid and "+79991234567" and
  "12345" are not.
\<close>

theorem is_valid_phone_spec:
  "(is_valid_phone U p \<longleftrightarrow>
      (let digits = filter (isdecimal U) p
       in (prefix (ascii ''375'') digits \<or> prefix (ascii ''8029'') digits \<or>
           prefix (ascii ''8044'') digits \<or> prefix (ascii ''8033'') digits \<or>
           prefix (ascii ''8025'') digits) \<and> length digits \<ge> 9))
   \<and> ((\<forall>c<128. isdecimal U c \<longleftrightarrow> 48 \<le> c \<and> c \<le> 57) \<longrightarrow>
        is_valid_phone U (ascii ''+375291234567'') \<and> is_valid_phone U (ascii ''80291234567'') \<and>
        \<not> is_valid_phone U (ascii ''+79991234567'') \<and> \<not> is_valid_phone U (ascii ''12345''))"
  using is_valid_phone_digits [of U p] phone_examples [of U] by blast

theorem is_valid_phone_spec_witness:
  "is_valid_phone unicode_basic (ascii ''+375 (29) 123-45-67'')
   \<and> is_valid_phone unicode_basic (ascii ''+375291234567'')
   \<and> \<not> is_valid_phone unicode_basic (ascii ''12345'')"
  using is_valid_phone_spec [of unicode_basic "ascii ''+375 (29) 123-45-67''"] basic_digits
  by (simp add: ascii_def unicode_basic_def)

section \<open>The order checks\<close>

text \<open>
  C3. When the extracted phone is not empty and fails the phone validator, the outcome
  of the checks is the invalid-phone rejection, whatever the address and the interval
  are: the missing-fields rejection is not reported, even when the address or the
  interval would have been listed.
\<close>

theorem invalid_phone_reported_alone:
  "phone d \<noteq> [] \<Longrightarrow> \<not> is_valid_phone U (phone d) \<Longrightarrow> validate U d = RejectedInvalidPhone"
  by (simp add: validate_def Let_def)

theorem invalid_phone_reported_alone_witness:
  "phone (sample_order\<lparr>phone := ascii ''12345'', address := []\<rparr>) \<noteq> []
   \<and> \<not> is_valid_phone unicode_basic (phone (sample_order\<lparr>phone := ascii ''12345'', address := []\<rparr>))
   \<and> validate unicode_basic (sample_order\<lparr>phone := ascii ''12345'', address := []\<rparr>) = RejectedInvalidPhone
   \<and> validate unicode_basic (sample_order\<lparr>phone := ascii ''12345''\<rparr>) = RejectedInvalidPhone"
proof -
  have bad: "\<not> is_valid_phone unicode_basic (ascii ''12345'')"
    using phone_examples [OF basic_digits] by blast
  have h1: "phone (sample_order\<lparr>phone := ascii ''12345'', address := []\<rparr>) \<noteq> []"
    by (simp add: ascii_def)
  have h2: "\<not> is_valid_phone unicode_basic (phone (sample_order\<lparr>phone := ascii ''12345'', address := []\<rparr>))"
    using bad by simp
  have h3: "phone (sample_order\<lparr>phone := ascii ''12345''\<rparr>) \<noteq> []"
    by (simp add: ascii_def)
  have h4: "\<not> is_valid_phone unicode_basic (phone (sample_order\<lparr>phone := ascii ''12345''\<rparr>))"
    using bad by simp
  from invalid_phone_reported_alone [OF h1 h2] invalid_phone_reported_alone [OF h3 h4] h1 h2
  show ?thesis by simp
qed

text \<open>
  C7. When the phone does not trigger the invalid-phone rejection (it is empty, or it
  is valid), the address is listed as missing exactly when it is empty or has no
  decimal digit, the interval exactly when it is empty and the phone exactly when it is
  empty, in this order; when the list is not empty the outcome is the missing-fields
  rejection with exactly that list, and otherwise the order is accepted. In particular,
  with the phone and the interval empty and a digit in the address, the list is the
  interval and the phone, without the address.
\<close>

theorem missing_fields_listed:
  "phone d = [] \<or> is_valid_phone U (phone d) \<Longrightarrow>
     validate U d =
       (let missing =
              (if address d = [] \<or> \<not> (\<exists>c\<in>set (address d). isdecimal U c)
               then [AddressWithHouseNumber] else []) @
              (if interval d = [] then [TimeInterval] else []) @
              (if phone d = [] then [PhoneNumber] else [])
        in if missing \<noteq> [] then RejectedMissingFields missing else Accepted (format_order d))
       \<and> (phone d = [] \<and> interval d = [] \<and> (\<exists>c\<in>set (address d). isdecimal U c) \<longrightarrow>
            validate U d = RejectedMissingFields [TimeInterval, PhoneNumber])"
  by (auto simp add: validate_def Let_def search_digits_re)

theorem missing_fields_listed_witness:
  "(phone (sample_order\<lparr>phone := [], interval := []\<rparr>) = []
      \<or> is_valid_phone unicode_basic (phone (sample_order\<lparr>phone := [], interval := []\<rparr>)))
   \<and> validate unicode_basic (sample_order\<lparr>phone := [], interval := []\<rparr>)
       = RejectedMissingFields [TimeInterval, PhoneNumber]
   \<and> is_valid_phone unicode_basic (phone sample_order)
   \<and> validate unicode_basic sample_order = Accepted (format_order sample_order)
   \<and> validate unicode_basic (sample_order\<lparr>address := ascii ''Minsk''\<rparr>)
       = RejectedMissingFields [AddressWithHouseNumber]"
proof -
  have h: "phone (sample_order\<lparr>phone := [], interval := []\<rparr>) = []
      \<or> is_valid_phone unicode_basic (phone (sample_order\<lparr>phone := [], interval := []\<rparr>))"
    by simp
  have v: "is_valid_phone unicode_basic (phone sample_order)"
    using phone_examples [OF basic_digits] by (simp add: sample_order_def)
  then have v': "phone (sample_order\<lparr>address := ascii ''Minsk''\<rparr>) = []
      \<or> is_valid_phone unicode_basic (phone (sample_order\<lparr>address := ascii ''Minsk''\<rparr>))"
    by simp
  from v have v'': "phone sample_order = [] \<or> is_valid_phone unicode_basic (phone sample_order)"
    by simp
  have 1: "validate unicode_basic (sample_order\<lparr>phone := [], interval := []\<rparr>)
       = RejectedMissingFields [TimeInterval, PhoneNumber]"
    using missing_fields_listed [OF h] by (simp add: sample_order_def unicode_basic_def)
  have 2: "validate unicode_basic sample_order = Accepted (format_order sample_order)"
    using missing_fields_listed [OF v'']
    by (simp add: sample_order_def unicode_basic_def ascii_def)
  have 3: "validate unicode_basic (sample_order\<lparr>address := ascii ''Minsk''\<rparr>)
       = RejectedMissingFields [AddressWithHouseNumber]"
    using missing_fields_listed [OF v']
    by (simp add: sample_order_def unicode_basic_def ascii_def)
  from h v 1 2 3 show ?thesis by blast
qed

section \<open>The classifier\<close>

lemma sorted_table: "sort_key (\<lambda>x. - snd x) PRICE_MAP = rev PRICE_MAP"
  by (simp add: PRICE_MAP_def)

lemma first_match_find:
  "first_match U rules t =
     (case find (\<lambda>(p, a). re_search U p t) rules of None \<Rightarrow> 0 | Some (p, a) \<Rightarrow> a)"
  by (induction rules) auto

lemma first_match_largest:
  "sorted (map (\<lambda>x. - snd x) rules) \<Longrightarrow> (p, a) \<in> set rules \<Longrightarrow> re_search U p t \<Longrightarrow>
     a \<le> first_match U rules t"
  by (induction rules) (auto split: if_splits)

lemma first_match_zero:
  "\<forall>x\<in>set rules. snd x \<noteq> 0 \<Longrightarrow>
     first_match U rules t = 0 \<longleftrightarrow> (\<forall>x\<in>set rules. \<not> re_search U (fst x) t)"
  by (induction rules) (auto split: if_splits)

lemma extract_amount_largest:
  assumes "(p, a) \<in> set PRICE_MAP" "re_search U p (lower U text)"
  shows "a \<le> extract_amount U text"
proof -
  have "sorted (map (\<lambda>x. - snd x) (rev PRICE_MAP))"
    by (simp add: PRICE_MAP_def)
  moreover have "(p, a) \<in> set (rev PRICE_MAP)" using assms(1) by simp
  ultimately show ?thesis
    unfolding extract_amount_def Let_def sorted_table
    using assms(2) by (rule first_match_largest)
qed

lemma extract_amount_zero:
  "extract_amount U text = 0 \<longleftrightarrow> (\<forall>x\<in>set PRICE_MAP. \<not> re_search U (fst x) (lower U text))"
proof -
  have "\<forall>x\<in>set (rev PRICE_MAP). snd x \<noteq> 0" by (simp add: PRICE_MAP_def)
  from first_match_zero [OF this] show ?thesis
    unfolding extract_amount_def Let_def sorted_table by simp
qed

lemma drop_nth: "take 1 (drop i s) = [c] \<longleftrightarrow> i < length s \<and> s ! i = c"
proof (cases "i < length s")
  case True
  then have "drop i s = s ! i # drop (Suc i) s" by (simp add: Cons_nth_drop_Suc)
  then show ?thesis using True by simp
next
  case False
  then show ?thesis by simp
qed

lemma ends_Str1: "ends U s (Str [c]) i = (if i < length s \<and> s ! i = c then [Suc i] else [])"
  using drop_nth [of i s c] by simp

lemma search_plus_re:
  "re_search U plus_re s \<longleftrightarrow> 43 \<in> set s \<or> (s \<noteq> [] \<and> s ! 0 = 45)"
  unfolding search_iff plus_re_def
  apply (simp add: ends_Str1 del: ends.simps(1))
  apply (auto simp: in_set_conv_nth split: if_splits)
  done

lemma sinyaya_matches:
  "re_search U mk_re mk_dop_sinyaya \<and> re_search U (Str (mk_dop @ [1089, 1080, 1085, 1103, 1103])) mk_dop_sinyaya
   \<and> first_match U (rev PRICE_MAP) mk_dop_sinyaya = 23"
  by (simp add: PRICE_MAP_def re_search_def mk_re_def plus_re_def mk_def mk_dop_def mk_dop_sinyaya_def)

text \<open>
  C4. \<open>extract_amount\<close> lower-cases the text and goes through the price table in the
  order of \<open>sorted\<close> with the key minus the amount, which is the table reversed, the
  amounts running from 91 down to 10; it returns the amount of the first rule of that
  order whose pattern is found somewhere in the lower-cased text, and 0 exactly when no
  pattern is found. It is a function of the text (and of the Unicode tables), and its
  result is at least the amount of every rule that is found: the larger amount wins.
  Both the rule for "mk" and the rule for "mk dop sinyaya" are found in
  "mk dop sinyaya", a text that lower-casing leaves alone, and the result is 23.
\<close>

theorem extract_amount_first_of_descending:
  "sort_key (\<lambda>x. - snd x) PRICE_MAP = rev PRICE_MAP \<and>
   map snd (rev PRICE_MAP) = [91, 82, 74, 65, 57, 48, 40, 31, 23, 15, 10] \<and>
   extract_amount U text =
     (case find (\<lambda>(p, a). re_search U p (lower U text)) (rev PRICE_MAP) of
        None \<Rightarrow> 0 | Some (p, a) \<Rightarrow> a) \<and>
   (extract_amount U text = 0 \<longleftrightarrow> (\<forall>x\<in>set PRICE_MAP. \<not> re_search U (fst x) (lower U text))) \<and>
   ((p, a) \<in> set PRICE_MAP \<and> re_search U p (lower U text) \<longrightarrow> a \<le> extract_amount U text) \<and>
   (lower U mk_dop_sinyaya = mk_dop_sinyaya \<longrightarrow>
      re_search U mk_re (lower U mk_dop_sinyaya) \<and>
      re_search U (Str (mk_dop @ [1089, 1080, 1085, 1103, 1103])) (lower U mk_dop_sinyaya) \<and>
      extract_amount U mk_dop_sinyaya = 23)"
proof -
  have "map snd (rev PRICE_MAP) = [91, 82, 74, 65, 57, 48, 40, 31, 23, 15, 10]"
    by (simp add: PRICE_MAP_def)
  moreover have "extract_amount U text =
     (case find (\<lambda>(p, a). re_search U p (lower U text)) (rev PRICE_MAP) of
        None \<Rightarrow> 0 | Some (p, a) \<Rightarrow> a)"
    unfolding extract_amount_def Let_def sorted_table by (rule first_match_find)
  moreover have "lower U mk_dop_sinyaya = mk_dop_sinyaya \<longrightarrow>
      re_search U mk_re (lower U mk_dop_sinyaya) \<and>
      re_search U (Str (mk_dop @ [1089, 1080, 1085, 1103, 1103])) (lower U mk_dop_sinyaya) \<and>
      extract_amount U mk_dop_sinyaya = 23"
    using sinyaya_matches [of U] by (simp add: extract_amount_def Let_def sorted_table)
  ultimately show ?thesis
    using sorted_table extract_amount_zero extract_amount_largest by blast
qed

theorem extract_amount_first_of_descending_witness:
  "(mk_re, 15) \<in> set PRICE_MAP \<and> re_search unicode_basic mk_re (lower unicode_basic mk_dop_sinyaya)
   \<and> 15 \<le> extract_amount unicode_basic mk_dop_sinyaya
   \<and> lower unicode_basic mk_dop_sinyaya = mk_dop_sinyaya
   \<and> extract_amount unicode_basic mk_dop_sinyaya = 23"
proof -
  have h: "lower unicode_basic mk_dop_sinyaya = mk_dop_sinyaya"
    by (simp add: unicode_basic_def lower_basic_def mk_dop_sinyaya_def)
  have m: "(mk_re, 15) \<in> set PRICE_MAP" by (simp add: PRICE_MAP_def)
  from extract_amount_first_of_descending [of unicode_basic mk_dop_sinyaya mk_re 15] h m
  show ?thesis by simp
qed

lemma extract_amount_plus:
  assumes "43 \<in> set (lower U text)"
  shows "10 \<le> extract_amount U text"
proof -
  have "(plus_re, 10) \<in> set PRICE_MAP" by (simp add: PRICE_MAP_def)
  from extract_amount_largest [OF this] assms show ?thesis
    using search_plus_re by blast
qed

lemma basic_lower_keeps_plus: "\<forall>s. 43 \<in> set s \<longrightarrow> 43 \<in> set (lower unicode_basic s)"
proof -
  have "lower_basic 43 = 43" by (simp add: lower_basic_def)
  then show ?thesis by (force simp: unicode_basic_def)
qed

lemma ends_Seq_nonempty:
  "ends U s (Seq a b) i \<noteq> [] \<longleftrightarrow> (\<exists>j\<in>set (ends U s a i). ends U s b j \<noteq> [])"
  by auto

lemma ends_sign:
  "ends U s (In [Lit 43, Lit 45]) j \<noteq> [] \<longleftrightarrow> j < length s \<and> (s ! j = 43 \<or> s ! j = 45)"
  by auto

lemma ends_start_or_space:
  "j \<in> set (ends U s (Alt Bol (In [Space])) i) \<longleftrightarrow>
     (i = 0 \<and> j = 0) \<or> (i < length s \<and> py_isspace (s ! i) \<and> j = Suc i)"
  by auto

lemma ends_trigger:
  "ends U s trigger_re i \<noteq> [] \<longleftrightarrow>
     (i = 0 \<and> s \<noteq> [] \<and> (s ! 0 = 43 \<or> s ! 0 = 45)) \<or>
     (Suc i < length s \<and> py_isspace (s ! i) \<and> (s ! Suc i = 43 \<or> s ! Suc i = 45))"
  unfolding trigger_re_def ends_Seq_nonempty ends_sign Bex_def ends_start_or_space
  by auto

lemma search_trigger:
  "re_search U trigger_re s \<longleftrightarrow>
     (\<exists>i<length s. (s ! i = 43 \<or> s ! i = 45) \<and> (i = 0 \<or> py_isspace (s ! (i - 1))))"
  (is "?L \<longleftrightarrow> ?R")
proof
  assume ?L
  then obtain i where "ends U s trigger_re i \<noteq> []" unfolding search_iff by blast
  then consider "s \<noteq> [] \<and> (s ! 0 = 43 \<or> s ! 0 = 45)"
    | "Suc i < length s \<and> py_isspace (s ! i) \<and> (s ! Suc i = 43 \<or> s ! Suc i = 45)"
    unfolding ends_trigger by blast
  then show ?R
  proof cases
    case 1
    then show ?thesis by (intro exI [of _ 0]) simp
  next
    case 2
    then show ?thesis by (intro exI [of _ "Suc i"]) simp
  qed
next
  assume ?R
  then obtain i where i: "i < length s" "s ! i = 43 \<or> s ! i = 45" "i = 0 \<or> py_isspace (s ! (i - 1))"
    by blast
  show ?L
  proof (cases i)
    case 0
    with i have "ends U s trigger_re 0 \<noteq> []" unfolding ends_trigger by auto
    then show ?thesis unfolding search_iff by blast
  next
    case (Suc j)
    with i have "ends U s trigger_re j \<noteq> []" unfolding ends_trigger by auto
    moreover have "j \<le> length s" using i Suc by simp
    ultimately show ?thesis unfolding search_iff by blast
  qed
qed

text \<open>
  C10. Provided lower-casing keeps a \<open>+\<close> (every text with a \<open>+\<close> has one after
  \<open>lower()\<close>, as \<open>+\<close> is its own lower case), the amount of a text that contains \<open>+\<close>
  anywhere is at least 10, hence never 0. So when the dispatcher's \<open>+\<close>/\<open>-\<close> test
  succeeds and the amount is 0, the text has no \<open>+\<close> at all and the test succeeded on a
  \<open>-\<close> at the start of the text or after a whitespace character.
\<close>

theorem plus_never_zero:
  assumes "\<forall>s. 43 \<in> set s \<longrightarrow> 43 \<in> set (lower U s)"
  shows "(43 \<in> set text \<longrightarrow> 10 \<le> extract_amount U text \<and> extract_amount U text \<noteq> 0) \<and>
         (re_search U trigger_re text \<and> extract_amount U text = 0 \<longrightarrow>
            43 \<notin> set text \<and>
            (\<exists>i<length text. text ! i = 45 \<and> (i = 0 \<or> py_isspace (text ! (i - 1)))))"
proof -
  have plus: "10 \<le> extract_amount U text" if "43 \<in> set text"
    using that assms extract_amount_plus by blast
  have "43 \<notin> set text \<and>
        (\<exists>i<length text. text ! i = 45 \<and> (i = 0 \<or> py_isspace (text ! (i - 1))))"
    if t: "re_search U trigger_re text" and z: "extract_amount U text = 0"
  proof -
    have no_plus: "43 \<notin> set text" using plus z by fastforce
    obtain i where i: "i < length text" "text ! i = 43 \<or> text ! i = 45"
        "i = 0 \<or> py_isspace (text ! (i - 1))"
      using t unfolding search_trigger by blast
    from no_plus i(1) have "text ! i \<noteq> 43" by (metis nth_mem)
    with i show ?thesis using no_plus by blast
  qed
  with plus show ?thesis by fastforce
qed

lemma x_minus_1:
  assumes "lower U (ascii ''x -1'') = ascii ''x -1''"
  shows "re_search U trigger_re (ascii ''x -1'') \<and> extract_amount U (ascii ''x -1'') = 0"
proof -
  have "re_search U trigger_re (ascii ''x -1'')"
    unfolding search_trigger by (intro exI [of _ 2]) (simp add: ascii_def py_isspace_def)
  moreover have "extract_amount U (ascii ''x -1'') = 0"
    using assms unfolding extract_amount_def Let_def sorted_table
    by (simp add: ascii_def)
      (simp add: PRICE_MAP_def re_search_def mk_re_def plus_re_def mk_def mk_dop_def)
  ultimately show ?thesis by simp
qed

lemma basic_lower_ascii:
  "lower unicode_basic (ascii ''x -1'') = ascii ''x -1''"
  "lower unicode_basic (ascii ''+15'') = ascii ''+15''"
  by (simp_all add: unicode_basic_def lower_basic_def ascii_def)

theorem plus_never_zero_witness:
  "43 \<in> set (ascii ''+15'') \<and> 10 \<le> extract_amount unicode_basic (ascii ''+15'')
   \<and> re_search unicode_basic trigger_re (ascii ''x -1'')
   \<and> extract_amount unicode_basic (ascii ''x -1'') = 0
   \<and> 43 \<notin> set (ascii ''x -1'')"
proof -
  have p: "43 \<in> set (ascii ''+15'')" by (simp add: ascii_def)
  from plus_never_zero [OF basic_lower_keeps_plus, of "ascii ''+15''"]
    plus_never_zero [OF basic_lower_keeps_plus, of "ascii ''x -1''"]
    x_minus_1 [OF basic_lower_ascii(1)] p
  show ?thesis by blast
qed

section \<open>The dispatcher\<close>

lemma allowed_iff:
  "(c, t) \<in> set allowed_pairs \<longleftrightarrow> (\<exists>ts. map_of ALLOWED_CONTEXTS c = Some ts \<and> t \<in> set ts)"
  by (auto simp: allowed_pairs_def ALLOWED_CONTEXTS_def split: if_splits)

lemma handle_message_allowed:
  assumes "(chat_id m, thread_or_0 m) \<in> set allowed_pairs"
  shows "handle_message U w m st =
     (if re_search U trigger_re (message_text m) \<and> extract_amount U (message_text m) \<noteq> 0
      then ([SendMessage (from_user_id m) (extract_amount U (message_text m))
               (fst (add_income (today w) (from_user_id m) (extract_amount U (message_text m)) st))],
            snd (add_income (today w) (from_user_id m) (extract_amount U (message_text m)) st),
            Returned)
      else order_path U w (message_text m) st)"
proof -
  obtain ts where ts: "map_of ALLOWED_CONTEXTS (chat_id m) = Some ts" "thread_or_0 m \<in> set ts"
    using assms unfolding allowed_iff by blast
  show ?thesis
    using ts
    by (simp add: handle_message_def income_path_def thread_or_0_def Let_def split_beta)
qed

lemma order_path_shape:
  "\<exists>r rest. fst (order_path U w t st) =
       CreateCompletion (replace PROMPT_TEMPLATE (ascii ''{text}'') t) # rest
     \<and> ReplyText r \<in> set rest \<and> (\<forall>u a b. SendMessage u a b \<notin> set rest)"
  by (auto simp: order_path_def Let_def split: option.splits)

lemma order_path_storage: "fst (snd (order_path U w t st)) = st"
  by (simp add: order_path_def Let_def split: option.splits)

lemma sample_message_allowed:
  "(chat_id (sample_message t), thread_or_0 (sample_message t)) \<in> set allowed_pairs"
  by (simp add: sample_message_def thread_or_0_def allowed_pairs_def ALLOWED_CONTEXTS_def)

lemma plus_15_amount:
  assumes "lower U (ascii ''+15'') = ascii ''+15''"
  shows "re_search U trigger_re (ascii ''+15'') \<and> extract_amount U (ascii ''+15'') = 10"
proof -
  have "re_search U trigger_re (ascii ''+15'')"
    unfolding search_trigger by (intro exI [of _ 0]) (simp add: ascii_def)
  moreover have "extract_amount U (ascii ''+15'') = 10"
    using assms unfolding extract_amount_def Let_def sorted_table
    by (simp add: ascii_def)
      (simp add: PRICE_MAP_def re_search_def mk_re_def plus_re_def mk_def mk_dop_def)
  ultimately show ?thesis by simp
qed

text \<open>
  C2, as stated, fails: the classifier does not read the number after the sign. For
  the text "+15" no rule but the \<open>+\<close> rule is found, and its amount is 10. In the
  sample run (an allowed context, an empty ledger, a transport whose direct send
  raises) the direct message announces 10 and the day's total is 10, not 15.
\<close>

theorem plus_15_credits_15_counterexample:
  "extract_amount unicode_basic (ascii ''+15'') \<noteq> 15 \<and>
   send_message_raises sample_world \<and>
   fst (handle_message unicode_basic sample_world (sample_message (ascii ''+15'')) empty_storage)
     = [SendMessage 5 10 10] \<and>
   fst (get_income_today (today sample_world) 5
     (fst (snd (handle_message unicode_basic sample_world (sample_message (ascii ''+15'')) empty_storage))))
     = 10"
  using plus_15_amount [OF basic_lower_ascii(2)]
  by (simp add: handle_message_allowed [OF sample_message_allowed] total_after_add_income)
    (simp add: sample_message_def sample_world_def add_income_def get_income_today_def
      user_dict_def empty_storage_def)

text \<open>
  C2, amended. For the text "+15" in an allowed context (lower-casing leaves "+15"
  alone), the dispatcher credits 10, the amount of the \<open>+\<close> rule, to the sender's bucket
  for the day, and its only effect is the direct message to the sender with that amount
  and the new total. This is so whether or not the direct send raises: the handler
  returns normally either way and the ledger keeps the credit, so that
  \<open>get_income_today\<close> for the sender is then the previous total plus 10.
\<close>

theorem plus_15_credits_10:
  assumes "(chat_id m, thread_or_0 m) \<in> set allowed_pairs"
    and "message_text m = ascii ''+15''"
    and "lower U (ascii ''+15'') = ascii ''+15''"
  shows "handle_message U w m st =
           ([SendMessage (from_user_id m) 10
               (fst (get_income_today (today w) (from_user_id m) st) + 10)],
            snd (add_income (today w) (from_user_id m) 10 st), Returned)
         \<and> fst (get_income_today (today w) (from_user_id m)
                  (fst (snd (handle_message U w m st))))
             = fst (get_income_today (today w) (from_user_id m) st) + 10"
proof -
  have total: "fst (add_income d u a st) = fst (get_income_today d u st) + a" for d u a
    by (simp add: get_income_today_def add_income_def Let_def)
  show ?thesis
    using plus_15_amount [OF assms(3)] assms(2)
    by (simp add: handle_message_allowed [OF assms(1)] total total_after_add_income)
qed

theorem plus_15_credits_10_witness:
  "send_message_raises sample_world \<and>
   handle_message unicode_basic sample_world (sample_message (ascii ''+15'')) empty_storage
     = ([SendMessage 5 10 10], snd (add_income 739194 5 10 empty_storage), Returned) \<and>
   fst (get_income_today 739194 5
     (fst (snd (handle_message unicode_basic sample_world (sample_message (ascii ''+15'')) empty_storage))))
     = 10"
proof -
  have t: "message_text (sample_message (ascii ''+15'')) = ascii ''+15''"
    by (simp add: sample_message_def)
  have z: "fst (get_income_today 739194 5 empty_storage) = 0"
    by (simp add: get_income_today_def user_dict_def empty_storage_def)
  have w: "today sample_world = 739194" "send_message_raises sample_world"
    by (simp_all add: sample_world_def)
  have u: "from_user_id (sample_message (ascii ''+15'')) = 5"
    by (simp add: sample_message_def)
  from plus_15_credits_10 [OF sample_message_allowed t basic_lower_ascii(2), of sample_world empty_storage]
  show ?thesis
    by (auto simp add: w u z)
qed

text \<open>
  C1, as stated, fails: the \<open>return\<close> of the income branch is inside \<open>if amount:\<close>, so a
  message that passes the \<open>+\<close>/\<open>-\<close> test with amount 0 goes on to the order path. For
  "x -1" in an allowed context (here with the provider failing) the prompt is built,
  the provider is called and a reply is sent.
\<close>

theorem zero_amount_silent_counterexample:
  "re_search unicode_basic trigger_re (ascii ''x -1'') \<and>
   extract_amount unicode_basic (ascii ''x -1'') = 0 \<and>
   fst (handle_message unicode_basic sample_world (sample_message (ascii ''x -1'')) empty_storage)
     = [CreateCompletion (replace PROMPT_TEMPLATE (ascii ''{text}'') (ascii ''x -1'')),
        LogError, ReplyText ProcessingError]"
  using x_minus_1 [OF basic_lower_ascii(1)]
  by (simp add: handle_message_allowed [OF sample_message_allowed])
    (simp add: sample_message_def order_path_def sample_world_def provider_down_def)

text \<open>
  C1, amended. For a message in an allowed context whose text passes the \<open>+\<close>/\<open>-\<close>
  test, if the classifier returns 0 then no income is credited and no direct message is
  sent (the ledger is unchanged), and the message is handled as an order: the handler
  does exactly what the order path does with the text. It builds the prompt from the
  text, calls the provider with it, and then sends an order-path reply.
\<close>

theorem zero_amount_goes_to_order_path:
  assumes "(chat_id m, thread_or_0 m) \<in> set allowed_pairs"
    and "re_search U trigger_re (message_text m)"
    and "extract_amount U (message_text m) = 0"
  shows "handle_message U w m st = order_path U w (message_text m) st
         \<and> fst (snd (handle_message U w m st)) = st
         \<and> (\<exists>r rest. fst (handle_message U w m st) =
                CreateCompletion (replace PROMPT_TEMPLATE (ascii ''{text}'') (message_text m)) # rest
              \<and> ReplyText r \<in> set rest \<and> (\<forall>u a b. SendMessage u a b \<notin> set rest))"
  using assms(3) order_path_shape [of U w "message_text m" st]
    order_path_storage [of U w "message_text m" st]
  by (simp add: handle_message_allowed [OF assms(1)])

theorem zero_amount_goes_to_order_path_witness:
  "re_search unicode_basic trigger_re (message_text (sample_message (ascii ''x -1''))) \<and>
   extract_amount unicode_basic (message_text (sample_message (ascii ''x -1''))) = 0 \<and>
   handle_message unicode_basic sample_world (sample_message (ascii ''x -1'')) empty_storage
     = ([CreateCompletion (replace PROMPT_TEMPLATE (ascii ''{text}'') (ascii ''x -1'')),
         LogError, ReplyText ProcessingError], empty_storage, Returned)"
proof -
  have t: "message_text (sample_message (ascii ''x -1'')) = ascii ''x -1''"
    by (simp add: sample_message_def)
  have h: "re_search unicode_basic trigger_re (message_text (sample_message (ascii ''x -1'')))"
    "extract_amount unicode_basic (message_text (sample_message (ascii ''x -1''))) = 0"
    using x_minus_1 [OF basic_lower_ascii(1)] t by simp_all
  from zero_amount_goes_to_order_path [OF sample_message_allowed h, of sample_world empty_storage] h
  show ?thesis
    by (simp add: t order_path_def sample_world_def provider_down_def)
qed

section \<open>The field extractor\<close>

lemma list_ex_upt: "list_ex P [0..<Suc n] \<longleftrightarrow> (\<exists>i\<le>n. P i)"
  unfolding list_ex_iff set_upt by (auto simp: less_Suc_eq_le)

lemma digit_run_at_iff:
  "digit_run_at U n s i \<longleftrightarrow> (\<forall>l<n. i + l < length s \<and> isdecimal U (s ! (i + l)))"
proof
  assume run: "digit_run_at U n s i"
  then have len: "n \<le> length s - i" by (simp add: digit_run_at_def min_def split: if_splits)
  from run len have "\<forall>l<n. isdecimal U (take n (drop i s) ! l)"
    by (auto simp: digit_run_at_def list_all_length)
  with len show "\<forall>l<n. i + l < length s \<and> isdecimal U (s ! (i + l))" by auto
next
  assume r: "\<forall>l<n. i + l < length s \<and> isdecimal U (s ! (i + l))"
  have len: "n \<le> length s - i"
  proof (cases n)
    case 0
    then show ?thesis by simp
  next
    case (Suc n')
    with r have "i + n' < length s" by simp
    with Suc show ?thesis by simp
  qed
  then have "length (take n (drop i s)) = n" by simp
  moreover have "list_all (isdecimal U) (take n (drop i s))"
    unfolding list_all_length using r len by auto
  ultimately show "digit_run_at U n s i" by (simp add: digit_run_at_def)
qed

lemma digit_run_at_0: "digit_run_at U 0 s i"
  by (simp add: digit_run_at_iff)

lemma digit_run_at_Suc:
  "digit_run_at U (Suc k) s i \<longleftrightarrow> i < length s \<and> isdecimal U (s ! i) \<and> digit_run_at U k s (Suc i)"
  unfolding digit_run_at_iff
  by (auto simp: less_Suc_eq_0_disj)

lemma iterate_digits:
  "iterate (ends U s (In [Digit])) k [i] = (if digit_run_at U k s i then [i + k] else [])"
proof (induction k arbitrary: i)
  case 0
  show ?case by (simp add: digit_run_at_0)
next
  case (Suc k)
  have step: "iterate (ends U s (In [Digit])) (Suc k) [i] =
      iterate (ends U s (In [Digit])) k (ends U s (In [Digit]) i)"
    by simp
  show ?case
  proof (cases "i < length s \<and> isdecimal U (s ! i)")
    case True
    then have "ends U s (In [Digit]) i = [Suc i]" by simp
    with True show ?thesis
      unfolding step by (simp add: Suc.IH digit_run_at_Suc del: ends.simps)
  next
    case False
    then have "ends U s (In [Digit]) i = []" by auto
    with False show ?thesis
      unfolding step by (auto simp add: iterate_Nil digit_run_at_Suc simp del: ends.simps)
  qed
qed

lemma iterate_digits_nonempty:
  "iterate (ends U s (In [Digit])) k [i] \<noteq> [] \<longleftrightarrow> digit_run_at U k s i"
  by (simp add: iterate_digits)

lemma digit_run_shorter: "digit_run_at U k s i \<Longrightarrow> n \<le> k \<Longrightarrow> digit_run_at U n s i"
  unfolding digit_run_at_iff by auto

lemma ends_digits_bounded:
  "j \<in> set (ends U s (Rep m (Some n) (In [Digit])) i) \<longleftrightarrow>
     (\<exists>k. m \<le> k \<and> k \<le> n \<and> digit_run_at U k s i \<and> j = i + k)"
  by (simp add: iterate_digits del: upt_Suc) (auto simp: less_Suc_eq_le)

lemma ends_digits_unbounded:
  "ends U s (Rep m None (In [Digit])) i \<noteq> [] \<longleftrightarrow> digit_run_at U m s i"
proof
  assume "ends U s (Rep m None (In [Digit])) i \<noteq> []"
  then obtain k where "m \<le> k" "digit_run_at U k s i"
    unfolding ends_Rep_unbounded iterate_digits_nonempty by blast
  then show "digit_run_at U m s i" by (rule digit_run_shorter [rotated])
next
  assume "digit_run_at U m s i"
  then show "ends U s (Rep m None (In [Digit])) i \<noteq> []"
    unfolding ends_Rep_unbounded iterate_digits_nonempty by (intro exI [of _ m]) simp
qed

lemma ends_colon_two_digits:
  "ends U s (Seq (Str [58]) (Rep 2 (Some 2) (In [Digit]))) j \<noteq> [] \<longleftrightarrow>
     j < length s \<and> s ! j = 58 \<and> digit_run_at U 2 s (Suc j)"
proof -
  have "ends U s (Rep 2 (Some 2) (In [Digit])) j' \<noteq> [] \<longleftrightarrow> digit_run_at U 2 s j'" for j'
    unfolding ends_Rep_bounded iterate_digits_nonempty by (metis le_antisym order_refl)
  then show ?thesis
    unfolding ends_Seq_nonempty by (simp add: ends_Str1 del: ends.simps)
qed

lemma ends_time_re:
  "ends U s time_re i \<noteq> [] \<longleftrightarrow>
     (\<exists>k. 1 \<le> k \<and> k \<le> 2 \<and> digit_run_at U k s i \<and> i + k < length s \<and> s ! (i + k) = 58
        \<and> digit_run_at U 2 s (Suc (i + k)))"
proof -
  have "ends U s time_re i \<noteq> [] \<longleftrightarrow>
      (\<exists>j\<in>set (ends U s (Rep 1 (Some 2) (In [Digit])) i).
         ends U s (Seq (Str [58]) (Rep 2 (Some 2) (In [Digit]))) j \<noteq> [])"
    unfolding time_re_def by (rule ends_Seq_nonempty)
  then show ?thesis
    unfolding ends_colon_two_digits Bex_def ends_digits_bounded by blast
qed

lemmas run_simps = digit_run_at_Suc digit_run_at_0 numeral_2_eq_2 numeral_3_eq_3

lemma search_time_re: "re_search U time_re s \<longleftrightarrow> has_time_shape U s"
proof
  assume "re_search U time_re s"
  then obtain i k where k: "1 \<le> k" "k \<le> 2" "digit_run_at U k s i" "i + k < length s"
      "s ! (i + k) = 58" "digit_run_at U 2 s (Suc (i + k))"
    unfolding search_iff ends_time_re by blast
  from k(1,2) consider "k = 1" | "k = 2" by linarith
  then have "\<exists>i'. time_shape_at U s i'"
  proof cases
    case 1
    with k have "time_shape_at U s i"
      by (simp add: time_shape_at_def run_simps)
    then show ?thesis ..
  next
    case 2
    with k have "time_shape_at U s (Suc i)"
      by (simp add: time_shape_at_def run_simps)
    then show ?thesis ..
  qed
  then obtain i' where i': "time_shape_at U s i'" ..
  then have "i' < length s" by (simp add: time_shape_at_def)
  with i' show "has_time_shape U s"
    unfolding has_time_shape_def list_ex_iff by auto
next
  assume "has_time_shape U s"
  then obtain i where i: "time_shape_at U s i"
    unfolding has_time_shape_def list_ex_iff by auto
  then have "ends U s time_re i \<noteq> []"
    unfolding ends_time_re by (intro exI [of _ 1]) (simp add: time_shape_at_def run_simps)
  moreover have "i \<le> length s" using i by (simp add: time_shape_at_def)
  ultimately show "re_search U time_re s" unfolding search_iff by blast
qed

lemma ends_opt_plus:
  "j \<in> set (ends U s (Rep 0 (Some 1) (Str [43])) i) \<longleftrightarrow>
     j = i \<or> (i < length s \<and> s ! i = 43 \<and> j = Suc i)"
  by (auto simp add: ends_Str1 simp del: ends.simps(1))

lemma ends_phone_re:
  "ends U s phone_re i \<noteq> [] \<longleftrightarrow>
     digit_run_at U 7 s i \<or> (i < length s \<and> s ! i = 43 \<and> digit_run_at U 7 s (Suc i))"
  unfolding phone_re_def ends_Seq_nonempty Bex_def ends_opt_plus ends_digits_unbounded
  by auto

lemma search_phone_re: "re_search U phone_re s \<longleftrightarrow> has_digit_run U 7 s"
proof
  assume "re_search U phone_re s"
  then obtain i where "digit_run_at U 7 s i \<or> digit_run_at U 7 s (Suc i)"
    unfolding search_iff ends_phone_re by blast
  then obtain i' where i': "digit_run_at U 7 s i'" by blast
  then have "i' + 0 < length s" unfolding digit_run_at_iff by (meson zero_less_numeral)
  then have "i' \<le> length s" by simp
  with i' show "has_digit_run U 7 s"
    unfolding has_digit_run_def list_ex_upt by blast
next
  assume "has_digit_run U 7 s"
  then obtain i where i: "digit_run_at U 7 s i" "i \<le> length s"
    unfolding has_digit_run_def list_ex_upt by auto
  then have "ends U s phone_re i \<noteq> []" unfolding ends_phone_re by simp
  with i(2) show "re_search U phone_re s" unfolding search_iff by blast
qed

lemma contains_sublist: "contains w s \<longleftrightarrow> sublist w s"
proof
  assume "contains w s"
  then obtain i where i: "take (length w) (drop i s) = w"
    unfolding contains_def list_ex_upt by blast
  have "drop i s = w @ drop (length w) (drop i s)"
    using i by (metis append_take_drop_id)
  then have "s = take i s @ w @ drop (length w) (drop i s)"
    by (metis append_take_drop_id)
  then show "sublist w s" unfolding sublist_def by blast
next
  assume "sublist w s"
  then obtain ps ss where s: "s = ps @ w @ ss" unfolding sublist_def by blast
  then have "take (length w) (drop (length ps) s) = w" "length ps \<le> length s" by simp_all
  then show "contains w s" unfolding contains_def list_ex_upt by blast
qed

lemma split_from_nonempty: "split_from sep acc s \<noteq> []"
  by (induction sep acc s rule: split_from.induct) auto

lemma split_from_no_sep: "\<not> sublist sep s \<Longrightarrow> split_from sep acc s = [rev acc @ s]"
proof (induction sep acc s rule: split_from.induct)
  case (1 sep acc)
  show ?case by simp
next
  case (2 sep acc c cs)
  from "2.prems" have np: "\<not> prefix sep (c # cs)" and ns: "\<not> sublist sep cs"
    by (simp_all add: sublist_Cons_right)
  from np have "take (length sep) (c # cs) \<noteq> sep" by (simp add: take_eq_prefix)
  with "2.IH"(2) ns show ?case by simp
qed

lemma split_from_last:
  "sep \<noteq> [] \<Longrightarrow> sublist sep s \<Longrightarrow>
     (\<exists>pre. s = pre @ sep @ last (split_from sep acc s)) \<and>
     \<not> sublist sep (last (split_from sep acc s))"
proof (induction sep acc s rule: split_from.induct)
  case (1 sep acc)
  then show ?case by simp
next
  case (2 sep acc c cs)
  show ?case
  proof (cases "take (length sep) (c # cs) = sep")
    case True
    let ?rest = "drop (length sep - 1) cs"
    have "drop (length sep) (c # cs) = ?rest"
      using "2.prems"(1) by (cases sep) simp_all
    then have s: "c # cs = sep @ ?rest" using True by (metis append_take_drop_id)
    have l: "last (split_from sep acc (c # cs)) = last (split_from sep [] ?rest)"
      using True "2.prems"(1) by (simp add: split_from_nonempty)
    show ?thesis
    proof (cases "sublist sep ?rest")
      case True
      with "2.IH"(1) \<open>take (length sep) (c # cs) = sep\<close> "2.prems"(1)
      obtain pre where "?rest = pre @ sep @ last (split_from sep [] ?rest)"
        and n: "\<not> sublist sep (last (split_from sep [] ?rest))" by blast
      with s have "c # cs = (sep @ pre) @ sep @ last (split_from sep [] ?rest)"
        by (metis append.assoc)
      with n show ?thesis unfolding l by blast
    next
      case False
      then have "split_from sep [] ?rest = [?rest]" by (simp add: split_from_no_sep)
      with s False show ?thesis unfolding l by (metis append_Nil last.simps)
    qed
  next
    case False
    then have np: "\<not> prefix sep (c # cs)" by (simp add: take_eq_prefix)
    with "2.prems"(2) have sub: "sublist sep cs" by (simp add: sublist_Cons_right)
    have l: "last (split_from sep acc (c # cs)) = last (split_from sep (c # acc) cs)"
      using False by simp
    from "2.IH"(2) False "2.prems"(1) sub
    obtain pre where "cs = pre @ sep @ last (split_from sep (c # acc) cs)"
      and n: "\<not> sublist sep (last (split_from sep (c # acc) cs))" by blast
    then have "c # cs = (c # pre) @ sep @ last (split_from sep (c # acc) cs)" by simp
    with n show ?thesis unfolding l by blast
  qed
qed

lemma extract_line_kind:
  "extract_line U line fs =
     (case line_kind U line of
        IntervalLine \<Rightarrow> fs\<lparr>interval := line_value U IntervalLine line\<rparr>
      | CommentLine \<Rightarrow> fs\<lparr>comment := line_value U CommentLine line\<rparr>
      | PhoneLine \<Rightarrow> fs\<lparr>phone := line_value U PhoneLine line\<rparr>
      | AddressLine \<Rightarrow> fs\<lparr>address := line_value U AddressLine line\<rparr>)"
  by (simp add: extract_line_def line_kind_def line_value_def search_time_re search_phone_re
      sub_non_digits_plus)

lemma latest_snoc:
  "latest U k (lines @ [l]) v = (if line_kind U l = k then line_value U k l else latest U k lines v)"
  by (simp add: latest_def)

lemma fold_extract_line:
  "fold (extract_line U) lines fs =
     \<lparr> interval = latest U IntervalLine lines (interval fs),
       address = latest U AddressLine lines (address fs),
       phone = latest U PhoneLine lines (phone fs),
       comment = latest U CommentLine lines (comment fs) \<rparr>"
proof (induction lines rule: rev_induct)
  case Nil
  show ?case by (simp add: latest_def)
next
  case (snoc l lines)
  have "fold (extract_line U) (lines @ [l]) fs = extract_line U l (fold (extract_line U) lines fs)"
    by simp
  then show ?case
    unfolding snoc.IH extract_line_kind
    by (cases "line_kind U l") (simp_all add: latest_snoc)
qed

lemma extract_fields_kinds:
  "extract_fields U text =
     (let lines = split (strip text) [10]
      in \<lparr> interval = field_of U IntervalLine lines, address = field_of U AddressLine lines,
           phone = field_of U PhoneLine lines, comment = field_of U CommentLine lines \<rparr>)"
  by (simp add: extract_fields_def fold_extract_line field_of_def Let_def)

lemma field_of_Nil: "field_of U k [] = []"
  by (simp add: field_of_def latest_def)

lemma field_of_snoc:
  "field_of U k (lines @ [l]) = (if line_kind U l = k then line_value U k l else field_of U k lines)"
  by (simp add: field_of_def latest_snoc)

lemma has_time_shape_iff:
  "has_time_shape U s \<longleftrightarrow>
     (\<exists>i. i + 3 < length s \<and> isdecimal U (s ! i) \<and> s ! (i + 1) = 58 \<and>
          isdecimal U (s ! (i + 2)) \<and> isdecimal U (s ! (i + 3)))"
  unfolding has_time_shape_def list_ex_iff set_upt time_shape_at_def by auto

lemma has_digit_run_iff:
  "has_digit_run U (Suc n) s \<longleftrightarrow> (\<exists>i. \<forall>l<Suc n. i + l < length s \<and> isdecimal U (s ! (i + l)))"
proof
  assume "has_digit_run U (Suc n) s"
  then show "\<exists>i. \<forall>l<Suc n. i + l < length s \<and> isdecimal U (s ! (i + l))"
    unfolding has_digit_run_def list_ex_upt digit_run_at_iff by blast
next
  assume "\<exists>i. \<forall>l<Suc n. i + l < length s \<and> isdecimal U (s ! (i + l))"
  then obtain i where i: "\<forall>l<Suc n. i + l < length s \<and> isdecimal U (s ! (i + l))" ..
  then have "i + 0 < length s" by blast
  then have "i \<le> length s" by simp
  with i show "has_digit_run U (Suc n) s"
    unfolding has_digit_run_def list_ex_upt digit_run_at_iff by blast
qed

lemma comment_after_marker:
  assumes "contains comment_marker line"
  shows "(\<exists>pre. line = pre @ comment_marker @ last (split line comment_marker)) \<and>
         \<not> contains comment_marker (last (split line comment_marker))"
proof -
  have "comment_marker \<noteq> []" by (simp add: comment_marker_def)
  from split_from_last [OF this, of line "[]"] assms show ?thesis
    by (simp add: contains_sublist split_def)
qed

subsection \<open>The sample completion\<close>

lemma sample_lines:
  "split (strip sample_completion) [10] =
     [interval sample_order, address sample_order, phone sample_order,
      sample_comment_line]"
  by code_simp

lemma sample_values:
  "strip (interval sample_order) = interval sample_order"
  "strip (address sample_order) = address sample_order"
  "strip (phone sample_order) = phone sample_order"
  "strip (last (split sample_comment_line comment_marker))
     = comment sample_order"
  by code_simp+

lemma sample_no_keywords:
  "\<not> contains blizhayshee (map lower_basic (address sample_order))"
  "\<not> contains kak_mozhno_skoree (map lower_basic (address sample_order))"
  "\<not> contains comment_marker (address sample_order)"
  "\<not> contains blizhayshee (map lower_basic (phone sample_order))"
  "\<not> contains kak_mozhno_skoree (map lower_basic (phone sample_order))"
  "\<not> contains comment_marker (phone sample_order)"
  "\<not> contains blizhayshee (map lower_basic sample_comment_line)"
  "\<not> contains kak_mozhno_skoree (map lower_basic sample_comment_line)"
  "contains comment_marker sample_comment_line"
  by code_simp+

lemma sample_kinds:
  assumes digits: "\<forall>c<1632. isdecimal U c \<longleftrightarrow> 48 \<le> c \<and> c \<le> 57"
    and lowers: "\<forall>s. (\<forall>c\<in>set s. c < 128 \<or> (1024 \<le> c \<and> c < 1120)) \<longrightarrow>
                   lower U s = map lower_basic s"
  shows "line_kind U (interval sample_order) = IntervalLine"
    and "line_kind U (address sample_order) = AddressLine"
    and "line_kind U (phone sample_order) = PhoneLine"
    and "line_kind U sample_comment_line = CommentLine"
    and "filter (\<lambda>c. isdecimal U c \<or> c = 43) (phone sample_order) = phone sample_order"
proof -
  have "time_shape_at U (interval sample_order) 3"
    using digits by (simp add: time_shape_at_def sample_order_def)
  then have "has_time_shape U (interval sample_order)"
    unfolding has_time_shape_def list_ex_iff
    by (intro bexI [of _ 3]) (simp_all add: sample_order_def)
  then show "line_kind U (interval sample_order) = IntervalLine"
    by (simp add: line_kind_def)
next
  have l: "lower U (address sample_order) = map lower_basic (address sample_order)"
    using lowers by (simp add: sample_order_def)
  have 1: "\<not> has_time_shape U (address sample_order)"
    using digits by (simp add: has_time_shape_def time_shape_at_def sample_order_def)
  have 2: "\<not> has_digit_run U 7 (address sample_order)"
    using digits by (simp add: has_digit_run_def digit_run_at_def sample_order_def)
  show "line_kind U (address sample_order) = AddressLine"
    using 1 2 sample_no_keywords(1-3) by (simp add: line_kind_def l)
next
  have l: "lower U (phone sample_order) = map lower_basic (phone sample_order)"
    using lowers by (simp add: sample_order_def ascii_def)
  have 1: "\<not> has_time_shape U (phone sample_order)"
    using digits by (simp add: has_time_shape_def time_shape_at_def sample_order_def ascii_def)
  have "digit_run_at U 7 (phone sample_order) 1"
    using digits by (simp add: digit_run_at_def sample_order_def ascii_def)
  then have 2: "has_digit_run U 7 (phone sample_order)"
    unfolding has_digit_run_def list_ex_upt by (intro exI [of _ 1]) (simp add: sample_order_def ascii_def)
  show "line_kind U (phone sample_order) = PhoneLine"
    using 1 2 sample_no_keywords(4-6) by (simp add: line_kind_def l)
next
  have l: "lower U sample_comment_line
      = map lower_basic sample_comment_line"
    using lowers by (simp add: sample_comment_line_def sample_order_def comment_marker_def)
  have 1: "\<not> has_time_shape U sample_comment_line"
    using digits
    by (simp add: has_time_shape_def time_shape_at_def sample_comment_line_def sample_order_def
        comment_marker_def)
  show "line_kind U sample_comment_line = CommentLine"
    using 1 sample_no_keywords(7-9) by (simp add: line_kind_def l)
next
  show "filter (\<lambda>c. isdecimal U c \<or> c = 43) (phone sample_order) = phone sample_order"
    using digits by (simp add: sample_order_def ascii_def)
qed

lemma sample_extracted:
  assumes "\<forall>c<1632. isdecimal U c \<longleftrightarrow> 48 \<le> c \<and> c \<le> 57"
    and "\<forall>s. (\<forall>c\<in>set s. c < 128 \<or> (1024 \<le> c \<and> c < 1120)) \<longrightarrow> lower U s = map lower_basic s"
  shows "extract_fields U sample_completion = sample_order"
proof -
  note k = sample_kinds [OF assms]
  have "extract_fields U sample_completion =
      \<lparr> interval = interval sample_order, address = address sample_order,
        phone = phone sample_order, comment = comment sample_order \<rparr>"
    unfolding extract_fields_kinds sample_lines Let_def field_of_def latest_def
    by (simp add: k line_value_def sample_values)
  then show ?thesis by simp
qed

lemma basic_tables:
  "\<forall>c<1632. isdecimal unicode_basic c \<longleftrightarrow> 48 \<le> c \<and> c \<le> 57"
  "\<forall>s. (\<forall>c\<in>set s. c < 128 \<or> (1024 \<le> c \<and> c < 1120)) \<longrightarrow>
     lower unicode_basic s = map lower_basic s"
  by (simp_all add: unicode_basic_def)

text \<open>
  C6. \<open>extract_fields\<close> strips the text, splits it at the newlines and gives every line
  exactly one kind, by the first test that succeeds: interval when the line has the
  shape of a time or, lower-cased, contains one of the two keywords; else comment when
  it contains the marker; else phone when it has seven decimal digits in a row; else
  address. Each field is the value of the last line of its kind (the stripped line; for
  a comment the stripped text after the marker, which is what follows an occurrence of
  the marker and has no marker in it; for a phone the digits and \<open>+\<close> signs of the
  stripped line) and the empty string when no line has that kind. With \<open>0\<close>..\<open>9\<close> the
  only decimal digits below U+0660 and lower-casing character by character on ASCII and
  U+0400..U+045F, the four sample lines give exactly the sample order.
\<close>

theorem extract_fields_by_line_kind:
  "extract_fields U text =
     (let lines = split (strip text) [10]
      in \<lparr> interval = field_of U IntervalLine lines, address = field_of U AddressLine lines,
           phone = field_of U PhoneLine lines, comment = field_of U CommentLine lines \<rparr>)
   \<and> field_of U k [] = []
   \<and> field_of U k (lines @ [l]) =
       (if line_kind U l = k then line_value U k l else field_of U k lines)
   \<and> (has_time_shape U line \<longleftrightarrow>
        (\<exists>i. i + 3 < length line \<and> isdecimal U (line ! i) \<and> line ! (i + 1) = 58 \<and>
             isdecimal U (line ! (i + 2)) \<and> isdecimal U (line ! (i + 3))))
   \<and> (has_digit_run U 7 line \<longleftrightarrow>
        (\<exists>i. \<forall>j<7. i + j < length line \<and> isdecimal U (line ! (i + j))))
   \<and> (contains comment_marker line \<longrightarrow>
        (\<exists>pre. line = pre @ comment_marker @ last (split line comment_marker)) \<and>
        \<not> contains comment_marker (last (split line comment_marker)))
   \<and> ((\<forall>c<1632. isdecimal U c \<longleftrightarrow> 48 \<le> c \<and> c \<le> 57) \<and>
       (\<forall>s. (\<forall>c\<in>set s. c < 128 \<or> (1024 \<le> c \<and> c < 1120)) \<longrightarrow> lower U s = map lower_basic s)
       \<longrightarrow> extract_fields U sample_completion = sample_order)"
proof -
  have "has_digit_run U 7 line \<longleftrightarrow>
        (\<exists>i. \<forall>j<7. i + j < length line \<and> isdecimal U (line ! (i + j)))"
    using has_digit_run_iff [of U 6 line] by (simp add: eval_nat_numeral)
  then show ?thesis
    using extract_fields_kinds [of U "text"] field_of_Nil [of U k] field_of_snoc [of U k lines l]
      has_time_shape_iff [of U line] comment_after_marker [of line] sample_extracted [of U]
    by blast
qed

theorem extract_fields_by_line_kind_witness:
  "extract_fields unicode_basic sample_completion = sample_order
   \<and> contains comment_marker sample_comment_line
   \<and> last (split sample_comment_line comment_marker)
       = [32] @ comment sample_order"
proof -
  have "last (split sample_comment_line comment_marker)
       = [32] @ comment sample_order"
    by code_simp
  with extract_fields_by_line_kind [of unicode_basic sample_completion] basic_tables
    sample_no_keywords(9)
  show ?thesis by blast
qed

end
